theory Spec2Isabelle
  imports Complex_Main
begin

section \<open>The row table\<close>

text \<open>
  \<^verbatim>\<open>rowsData\<close> is the array of rows read from the spreadsheet (row 0 is the header),
  each row an array of cells. The cells come out of a JSON response, so a cell is a
  string, a number or \<^verbatim>\<open>null\<close>; a row written past its end gets holes, which read as
  \<^verbatim>\<open>undefined\<close>. Of a number only its being zero matters to the code modelled here
  (truthiness), so numbers are integers, and the sign of zero is not represented.
  Strings are lists of code units below 256.
\<close>

datatype cell = Str string | Num int | Null | Undefined

type_synonym row = "cell list"
type_synonym table = "row list"

text \<open>JavaScript truthiness of a cell: the empty string, 0, null and undefined are falsy.\<close>

fun truthy :: "cell \<Rightarrow> bool" where
  "truthy (Str s) = (s \<noteq> [])"
| "truthy (Num n) = (n \<noteq> 0)"
| "truthy Null = False"
| "truthy Undefined = False"

text \<open>\<^verbatim>\<open>row[i]\<close>: an index outside the array (or \<^verbatim>\<open>-1\<close>) reads \<^verbatim>\<open>undefined\<close>.\<close>

definition row_get :: "row \<Rightarrow> int \<Rightarrow> cell" where
  "row_get r i = (if 0 \<le> i \<and> i < int (length r) then r ! nat i else Undefined)"

text \<open>\<^verbatim>\<open>row[k] = v\<close>: an index past the end extends the array, leaving holes between.\<close>

definition row_set :: "row \<Rightarrow> nat \<Rightarrow> cell \<Rightarrow> row" where
  "row_set r k v =
     (if k < length r then r[k := v] else r @ replicate (k - length r) Undefined @ [v])"

text \<open>
  \<^verbatim>\<open>JSON.parse(JSON.stringify(t))\<close> on an array of arrays of cells: a deep copy in which
  \<^verbatim>\<open>undefined\<close> entries and holes have become \<^verbatim>\<open>null\<close>.
\<close>

fun json_cell :: "cell \<Rightarrow> cell" where
  "json_cell Undefined = Null"
| "json_cell c = c"

definition json_copy :: "table \<Rightarrow> table" where
  "json_copy t = map (map json_cell) t"

section \<open>Strings\<close>

text \<open>
  White space as \<^verbatim>\<open>String.prototype.trim\<close> and the regular-expression class \<^verbatim>\<open>\s\<close> see
  it, among the code units below 256: tab, line feed, vertical tab, form feed, carriage
  return, space and the no-break space.
\<close>

definition is_space :: "char \<Rightarrow> bool" where
  "is_space c = (of_char c \<in> {9, 10, 11, 12, 13, 32, 160 :: nat})"

definition trim :: "string \<Rightarrow> string" where
  "trim s = rev (dropWhile is_space (rev (dropWhile is_space s)))"

text \<open>
  The character classes of the regular expressions, and \<^verbatim>\<open>toLowerCase\<close>, on code units
  below 256: \<^verbatim>\<open>\d\<close> is 0-9, \<^verbatim>\<open>\w\<close> is the ASCII letters, the digits and the underscore;
  the letters with an upper case are A-Z and, in the upper half, the code units 192 to
  222 but 215. A regular expression with the flag \<^verbatim>\<open>i\<close> and without the flag \<^verbatim>\<open>u\<close> never
  matches an ASCII letter with a character outside ASCII, so matching a pattern letter
  case-insensitively is comparing it with the ASCII lower case of the character.
\<close>

definition is_digit :: "char \<Rightarrow> bool" where
  "is_digit c = (48 \<le> (of_char c :: nat) \<and> (of_char c :: nat) \<le> 57)"

definition is_word :: "char \<Rightarrow> bool" where
  "is_word c =
     (let n = (of_char c :: nat)
      in (65 \<le> n \<and> n \<le> 90) \<or> (97 \<le> n \<and> n \<le> 122) \<or> (48 \<le> n \<and> n \<le> 57) \<or> n = 95)"

definition toLowerCase_char :: "char \<Rightarrow> char" where
  "toLowerCase_char c =
     (let n = (of_char c :: nat)
      in if (65 \<le> n \<and> n \<le> 90) \<or> (192 \<le> n \<and> n \<le> 222 \<and> n \<noteq> 215) then char_of (n + 32)
         else c)"

definition toLowerCase :: "string \<Rightarrow> string" where
  "toLowerCase s = map toLowerCase_char s"

definition ascii_lower :: "char \<Rightarrow> char" where
  "ascii_lower c =
     (let n = (of_char c :: nat) in if 65 \<le> n \<and> n \<le> 90 then char_of (n + 32) else c)"

section \<open>The merchant editing cache\<close>

text \<open>
  The part of the application object the cache functions read and write.
  \<^verbatim>\<open>columnIndices\<close> holds \<^verbatim>\<open>-1\<close> for a column that was not found; an index that was never
  set (\<^verbatim>\<open>undefined\<close>) behaves like \<^verbatim>\<open>-1\<close> in every use below and is modelled as \<^verbatim>\<open>-1\<close>.
  \<^verbatim>\<open>pendingChanges\<close> is a \<^verbatim>\<open>Map\<close> and \<^verbatim>\<open>changedRows\<close> a \<^verbatim>\<open>Set\<close>; both iterate in insertion
  order, so they are lists.
\<close>

record app =
  rowsData :: table
  col_merchant :: int
  col_merchantGroup :: int
  col_payweek :: int
  selectedMonth :: int
  selectedYear :: int
  enabled :: bool
  originalData :: "table option"
  pendingChanges :: "(string \<times> string) list"
  changedRows :: "nat list"

text \<open>\<^verbatim>\<open>Map.prototype.set\<close>: an existing key keeps its place, a new key goes last.\<close>

fun map_set :: "(string \<times> string) list \<Rightarrow> string \<Rightarrow> string \<Rightarrow> (string \<times> string) list" where
  "map_set [] k v = [(k, v)]"
| "map_set ((k', v') # m) k v = (if k' = k then (k, v) # m else (k', v') # map_set m k v)"

text \<open>\<^verbatim>\<open>Set.prototype.add\<close>.\<close>

definition set_add :: "nat list \<Rightarrow> nat \<Rightarrow> nat list" where
  "set_add s i = (if i \<in> set s then s else s @ [i])"

text \<open>\<^verbatim>\<open>getColumnValue\<close>, with the column index looked up by the caller.\<close>

definition getColumnValue :: "row \<Rightarrow> int \<Rightarrow> cell" where
  "getColumnValue r colIndex =
     (if colIndex \<noteq> - 1 \<and> truthy (row_get r colIndex) then row_get r colIndex else Null)"

text \<open>\<^verbatim>\<open>a || b\<close> on cells.\<close>

definition or_else :: "cell \<Rightarrow> cell \<Rightarrow> cell" where
  "or_else a b = (if truthy a then a else b)"

definition enableMerchantEditingCache :: "app \<Rightarrow> app" where
  "enableMerchantEditingCache st =
     st\<lparr>originalData := Some (json_copy (rowsData st)), enabled := True,
        pendingChanges := [], changedRows := []\<rparr>"

definition disableMerchantEditingCache :: "app \<Rightarrow> app" where
  "disableMerchantEditingCache st =
     st\<lparr>enabled := False, originalData := None, pendingChanges := [], changedRows := []\<rparr>"

text \<open>
  The loop of \<^verbatim>\<open>applyCachedMerchantChange\<close> over the row indices \<^verbatim>\<open>1 .. length - 1\<close>,
  given as the list of indices still to visit.
\<close>

fun apply_rows :: "string \<Rightarrow> string \<Rightarrow> nat list \<Rightarrow> app \<Rightarrow> app" where
  "apply_rows merchantName newGroupName [] st = st"
| "apply_rows merchantName newGroupName (i # is) st =
     (let r = rowsData st ! i;
          rowMerchant = or_else (getColumnValue r (col_merchant st)) (row_get r 2)
      in if rowMerchant = Str merchantName
         then apply_rows merchantName newGroupName is
                (st\<lparr>rowsData :=
                      (if col_merchantGroup st \<ge> 0
                       then (rowsData st)[i := row_set r (nat (col_merchantGroup st)) (Str newGroupName)]
                       else rowsData st),
                    changedRows := set_add (changedRows st) i\<rparr>)
         else apply_rows merchantName newGroupName is st)"

definition applyCachedMerchantChange :: "string \<Rightarrow> string \<Rightarrow> app \<Rightarrow> app" where
  "applyCachedMerchantChange merchantName newGroupName st =
     (if \<not> enabled st then st
      else apply_rows merchantName newGroupName [1 ..< length (rowsData st)]
             (st\<lparr>pendingChanges := map_set (pendingChanges st) merchantName newGroupName\<rparr>))"

text \<open>
  \<^verbatim>\<open>revertCachedChanges\<close>. A snapshot, when there is one, is an array and so truthy.
\<close>

definition revertCachedChanges :: "app \<Rightarrow> app" where
  "revertCachedChanges st =
     (case originalData st of
        None \<Rightarrow> st
      | Some snap \<Rightarrow>
          if \<not> enabled st then st
          else disableMerchantEditingCache (st\<lparr>rowsData := json_copy snap\<rparr>))"

section \<open>Writing the changes back\<close>

text \<open>
  \<^verbatim>\<open>Validators.sheetId\<close>: \<^verbatim>\<open>None\<close> stands for the \<^verbatim>\<open>Error\<close> it throws. The sheet id comes
  from \<^verbatim>\<open>Storage.getCredentials()\<close>, which yields a string (the empty one by default).
\<close>

definition Validators_sheetId :: "string \<Rightarrow> string option" where
  "Validators_sheetId sheetId =
     (if sheetId = [] then None
      else if length (trim sheetId) < 20 then None
      else Some (trim sheetId))"

text \<open>\<^verbatim>\<open>SheetsAPI.numberToLetter\<close>: the loop, with \<^verbatim>\<open>result\<close> as accumulator.\<close>

function numberToLetter_loop :: "nat \<Rightarrow> string \<Rightarrow> string" where
  "numberToLetter_loop num result =
     (if num > 0
      then numberToLetter_loop ((num - 1) div 26) (char_of (65 + (num - 1) mod 26) # result)
      else result)"
  by pat_completeness auto
termination
  by (relation "measure fst") auto

declare numberToLetter_loop.simps [simp del]

definition numberToLetter :: "nat \<Rightarrow> string" where
  "numberToLetter num = numberToLetter_loop num []"

text \<open>The decimal digits of a row number, as the template literal prints it.\<close>

function decimal :: "nat \<Rightarrow> string" where
  "decimal n = (if n < 10 then [char_of (48 + n)] else decimal (n div 10) @ [char_of (48 + n mod 10)])"
  by pat_completeness auto
termination
  by (relation "measure id") auto

declare decimal.simps [simp del]

text \<open>
  The requests the spreadsheet layer can send for a write: \<^verbatim>\<open>updateCell\<close> sends one
  request that carries one cell, \<^verbatim>\<open>batchUpdateCells\<close> one request that carries a list of
  them. The store is outside the program: \<^verbatim>\<open>store c\<close> tells whether it accepts the
  request \<^verbatim>\<open>c\<close> (the promise resolves) or not (it rejects).
\<close>

datatype api_call =
  UpdateCell string string cell
| BatchUpdateCells string "(string \<times> cell) list"

text \<open>
  \<^verbatim>\<open>SheetsAPI.updateCell\<close>: the requests sent and whether the promise resolves. An invalid
  sheet id rejects before anything is sent.
\<close>

definition updateCell :: "(api_call \<Rightarrow> bool) \<Rightarrow> string \<Rightarrow> string \<Rightarrow> cell \<Rightarrow> api_call list \<times> bool" where
  "updateCell store sheetId rangeRef v =
     (case Validators_sheetId sheetId of
        None \<Rightarrow> ([], False)
      | Some sid \<Rightarrow> ([UpdateCell sid rangeRef v], store (UpdateCell sid rangeRef v)))"

datatype toast = NoToast | Saved nat | Failed

record commit_result =
  state :: app
  calls :: "api_call list"
  returned :: bool
  shown :: toast

text \<open>
  The loop of \<^verbatim>\<open>commitCachedChanges\<close> over \<^verbatim>\<open>changedRows\<close>, followed by \<^verbatim>\<open>Promise.all\<close>: the
  requests sent, and whether every promise resolved. A row index outside the table makes
  \<^verbatim>\<open>this.rowsData[rowIndex][...]\<close> throw; the loop stops there, the requests already sent
  stay sent.
\<close>

fun commit_rows :: "(api_call \<Rightarrow> bool) \<Rightarrow> string \<Rightarrow> string \<Rightarrow> app \<Rightarrow> nat list \<Rightarrow> api_call list \<times> bool" where
  "commit_rows store sheetId letter st [] = ([], True)"
| "commit_rows store sheetId letter st (rowIndex # rest) =
     (if rowIndex \<ge> length (rowsData st) then ([], False)
      else
        let newValue = row_get (rowsData st ! rowIndex) (col_merchantGroup st);
            rangeRef = letter @ decimal (rowIndex + 1);
            (c, ok) = updateCell store sheetId rangeRef newValue;
            (cs, oks) = commit_rows store sheetId letter st rest
        in (c @ cs, ok \<and> oks))"

definition commitCachedChanges :: "(api_call \<Rightarrow> bool) \<Rightarrow> string \<Rightarrow> app \<Rightarrow> commit_result" where
  "commitCachedChanges store sheetId st =
     (if \<not> enabled st \<or> changedRows st = []
      then \<lparr>state = st, calls = [], returned = True, shown = NoToast\<rparr>
      else
        let merchantGroupColLetter = numberToLetter (nat (col_merchantGroup st + 1));
            (cs, ok) = commit_rows store sheetId merchantGroupColLetter st (changedRows st)
        in if ok
           then \<lparr>state = disableMerchantEditingCache st, calls = cs, returned = True,
                 shown = Saved (length (changedRows st))\<rparr>
           else \<lparr>state = st, calls = cs, returned = False, shown = Failed\<rparr>)"

section \<open>Dates\<close>

text \<open>
  A \<^verbatim>\<open>Date\<close> holds a time value: milliseconds since 1970-01-01T00:00Z, an integer; an
  invalid date (\<^verbatim>\<open>NaN\<close>) is \<^verbatim>\<open>None\<close>. The functions below are those of the ECMAScript
  specification (Day, DayFromYear, YearFromTime, MonthFromTime, DateFromTime, WeekDay),
  on which \<^verbatim>\<open>getMonth\<close>, \<^verbatim>\<open>getFullYear\<close>, \<^verbatim>\<open>getDate\<close>, \<^verbatim>\<open>getDay\<close>, \<^verbatim>\<open>setDate\<close> and \<^verbatim>\<open>setHours\<close>
  are defined. Local time is UTC plus a constant offset \<^verbatim>\<open>tza\<close> in milliseconds: a zone
  that changes its offset (daylight saving) is not modelled, and neither is the limit
  of 100,000,000 days on a time value.
\<close>

definition msPerDay :: int where
  "msPerDay = 86400000"

definition Day :: "int \<Rightarrow> int" where
  "Day t = t div msPerDay"

definition TimeWithinDay :: "int \<Rightarrow> int" where
  "TimeWithinDay t = t mod msPerDay"

definition DaysInYear :: "int \<Rightarrow> int" where
  "DaysInYear y =
     (if y mod 4 \<noteq> 0 then 365 else if y mod 100 \<noteq> 0 then 366
      else if y mod 400 \<noteq> 0 then 365 else 366)"

definition DayFromYear :: "int \<Rightarrow> int" where
  "DayFromYear y =
     365 * (y - 1970) + (y - 1969) div 4 - (y - 1901) div 100 + (y - 1601) div 400"

text \<open>
  YearFromTime is the largest year whose first day is not after the day of \<^verbatim>\<open>t\<close>. It is
  found by counting up from a year that is not after it.
\<close>

lemma DayFromYear_less: "DayFromYear y < DayFromYear (y + 1)"
proof -
  have a: "(y - 1969) div 4 \<le> (y + 1 - 1969) div 4"
    by (rule zdiv_mono1) simp_all
  have c: "(y - 1601) div 400 \<le> (y + 1 - 1601) div 400"
    by (rule zdiv_mono1) simp_all
  have "(y + 1 - 1901) div 100 \<le> (y - 1901 + 100) div 100"
    by (rule zdiv_mono1) simp_all
  then have b: "(y + 1 - 1901) div 100 \<le> (y - 1901) div 100 + 1"
    by simp
  have key: "365 * (y - 1970) + p - q + r < 365 * (y + 1 - 1970) + p' - q' + r'"
    if "p \<le> p'" "r \<le> r'" "q' \<le> q + 1" for p p' q q' r r' :: int
    using that by arith
  show ?thesis
    unfolding DayFromYear_def by (rule key [OF a c b])
qed

function year_search :: "int \<Rightarrow> int \<Rightarrow> int" where
  "year_search d y = (if DayFromYear (y + 1) \<le> d then year_search d (y + 1) else y)"
  by pat_completeness auto
termination
proof (relation "measure (\<lambda>(d, y). nat (d - DayFromYear y))")
  show "wf (measure (\<lambda>(d, y). nat (d - DayFromYear y)))"
    by simp
next
  fix d y :: int
  assume "DayFromYear (y + 1) \<le> d"
  with DayFromYear_less [of y]
  show "((d, y + 1), (d, y)) \<in> measure (\<lambda>(d, y). nat (d - DayFromYear y))"
    by simp
qed

declare year_search.simps [simp del]

definition YearFromTime :: "int \<Rightarrow> int" where
  "YearFromTime t =
     (let d = Day t in year_search d (1970 + (if 0 \<le> d then d div 366 else d div 365)))"

definition InLeapYear :: "int \<Rightarrow> int" where
  "InLeapYear t = (if DaysInYear (YearFromTime t) = 366 then 1 else 0)"

definition DayWithinYear :: "int \<Rightarrow> int" where
  "DayWithinYear t = Day t - DayFromYear (YearFromTime t)"

definition MonthFromTime :: "int \<Rightarrow> int" where
  "MonthFromTime t =
     (let d = DayWithinYear t; l = InLeapYear t
      in if d < 31 then 0
         else if d < 59 + l then 1
         else if d < 90 + l then 2
         else if d < 120 + l then 3
         else if d < 151 + l then 4
         else if d < 181 + l then 5
         else if d < 212 + l then 6
         else if d < 243 + l then 7
         else if d < 273 + l then 8
         else if d < 304 + l then 9
         else if d < 334 + l then 10
         else 11)"

definition DateFromTime :: "int \<Rightarrow> int" where
  "DateFromTime t =
     (let d = DayWithinYear t; l = InLeapYear t; m = MonthFromTime t
      in if m = 0 then d + 1
         else if m = 1 then d - 30
         else if m = 2 then d - 58 - l
         else if m = 3 then d - 89 - l
         else if m = 4 then d - 119 - l
         else if m = 5 then d - 150 - l
         else if m = 6 then d - 180 - l
         else if m = 7 then d - 211 - l
         else if m = 8 then d - 242 - l
         else if m = 9 then d - 272 - l
         else if m = 10 then d - 303 - l
         else d - 333 - l)"

definition WeekDay :: "int \<Rightarrow> int" where
  "WeekDay t = (Day t + 4) mod 7"

definition getMonth :: "int \<Rightarrow> int \<Rightarrow> int" where
  "getMonth tza t = MonthFromTime (t + tza)"

definition getFullYear :: "int \<Rightarrow> int \<Rightarrow> int" where
  "getFullYear tza t = YearFromTime (t + tza)"

definition getDate :: "int \<Rightarrow> int \<Rightarrow> int" where
  "getDate tza t = DateFromTime (t + tza)"

definition getDay :: "int \<Rightarrow> int \<Rightarrow> int" where
  "getDay tza t = WeekDay (t + tza)"

text \<open>
  \<^verbatim>\<open>setDate(dt)\<close>: the day of the month becomes \<^verbatim>\<open>dt\<close> (which may lie outside the month), the
  local time of day stays. The first day of the local month is day number
  \<^verbatim>\<open>Day - DateFromTime + 1\<close>.
\<close>

definition setDate :: "int \<Rightarrow> int \<Rightarrow> int \<Rightarrow> int" where
  "setDate tza t dt =
     (let lt = t + tza
      in (Day lt - DateFromTime lt + dt) * msPerDay + TimeWithinDay lt - tza)"

definition setHours :: "int \<Rightarrow> int \<Rightarrow> int \<Rightarrow> int \<Rightarrow> int \<Rightarrow> int \<Rightarrow> int" where
  "setHours tza t h m s ms =
     Day (t + tza) * msPerDay + ((h * 60 + m) * 60 + s) * 1000 + ms - tza"

text \<open>
  \<^verbatim>\<open>new Date(dateStr)\<close> on a cell: a string goes through \<^verbatim>\<open>Date.parse\<close>, whose result for
  formats other than the ISO ones is left to the implementation, so it is a parameter;
  a number is the time value itself.
\<close>

fun new_Date :: "(string \<Rightarrow> int option) \<Rightarrow> cell \<Rightarrow> int option" where
  "new_Date parse (Str s) = parse s"
| "new_Date parse (Num n) = Some n"
| "new_Date parse Null = Some 0"
| "new_Date parse Undefined = None"

section \<open>The period filter\<close>

text \<open>
  \<^verbatim>\<open>currentPeriod\<close>: the four period names, any other non-empty string, or a falsy value.
\<close>

datatype period = NoPeriod | Week | Payweek | Month | Year | OtherPeriod

text \<open>\<^verbatim>\<open>isCurrentPayweek\<close>; \<^verbatim>\<open>now\<close> is its own reading of the clock.\<close>

definition isCurrentPayweek :: "int \<Rightarrow> int \<Rightarrow> bool" where
  "isCurrentPayweek now transactionDate =
     (let daysDiff = (now - transactionDate) div (1000 * 60 * 60 * 24) in daysDiff \<le> 14)"

text \<open>
  The predicate \<^verbatim>\<open>getFilteredRows\<close> filters the transactions with. \<^verbatim>\<open>now\<close> is the clock as
  \<^verbatim>\<open>getFilteredRows\<close> reads it, \<^verbatim>\<open>now'\<close> the clock as \<^verbatim>\<open>isCurrentPayweek\<close> reads it for this
  transaction.
\<close>

definition in_period :: "int \<Rightarrow> (string \<Rightarrow> int option) \<Rightarrow> app \<Rightarrow> period \<Rightarrow> int \<Rightarrow> int \<Rightarrow> row \<Rightarrow> bool" where
  "in_period tza parse st currentPeriod now now' transaction =
     (let dateStr = row_get transaction 4
      in if \<not> truthy dateStr then False
         else case new_Date parse dateStr of
           None \<Rightarrow> False
         | Some transactionDate \<Rightarrow>
             (case currentPeriod of
                Week \<Rightarrow>
                  (let weekStart = setHours tza (setDate tza now (getDate tza now - getDay tza now)) 0 0 0 0;
                       weekEnd = setHours tza (setDate tza weekStart (getDate tza weekStart + 6)) 23 59 59 999
                   in weekStart \<le> transactionDate \<and> transactionDate \<le> weekEnd)
              | Payweek \<Rightarrow>
                  (if truthy (getColumnValue transaction (col_payweek st))
                   then isCurrentPayweek now' transactionDate
                   else (let twoWeeksAgo = setDate tza now (getDate tza now - 14)
                         in twoWeeksAgo \<le> transactionDate))
              | Month \<Rightarrow>
                  getMonth tza transactionDate = selectedMonth st \<and>
                  getFullYear tza transactionDate = selectedYear st
              | Year \<Rightarrow> getFullYear tza transactionDate = selectedYear st
              | _ \<Rightarrow> True))"

definition getFilteredRows :: "int \<Rightarrow> (string \<Rightarrow> int option) \<Rightarrow> app \<Rightarrow> period \<Rightarrow> int \<Rightarrow> (row \<Rightarrow> int) \<Rightarrow> table" where
  "getFilteredRows tza parse st currentPeriod now clock =
     (if length (rowsData st) \<le> 1 then []
      else
        let transactions = tl (rowsData st)
        in if currentPeriod = NoPeriod then transactions
           else filter (\<lambda>transaction. in_period tza parse st currentPeriod now (clock transaction) transaction)
                  transactions)"




section \<open>Budget periods\<close>

text \<open>
  \<^verbatim>\<open>convertBudgetFromBase\<close> and \<^verbatim>\<open>convertBudgetToBase\<close>. The program computes them on
  double-precision numbers; here the amounts are rationals and the operations exact, so
  what is proved of them says nothing of rounding or overflow.
\<close>

definition payweeksPerYear :: rat where
  "payweeksPerYear = 26"

fun convertBudgetFromBase :: "rat \<Rightarrow> period \<Rightarrow> rat" where
  "convertBudgetFromBase baseAmount Payweek = baseAmount"
| "convertBudgetFromBase baseAmount Week = baseAmount / 2"
| "convertBudgetFromBase baseAmount Month = (baseAmount * payweeksPerYear) / 12"
| "convertBudgetFromBase baseAmount Year = baseAmount * payweeksPerYear"
| "convertBudgetFromBase baseAmount _ = baseAmount"

fun convertBudgetToBase :: "rat \<Rightarrow> period \<Rightarrow> rat" where
  "convertBudgetToBase amount Payweek = amount"
| "convertBudgetToBase amount Week = amount * 2"
| "convertBudgetToBase amount Month = (amount * 12) / payweeksPerYear"
| "convertBudgetToBase amount Year = amount / payweeksPerYear"
| "convertBudgetToBase amount _ = amount"

section \<open>Grouping similar merchants\<close>

text \<open>
  The normalized name of \<^verbatim>\<open>findSimilarMerchants\<close>, one replace after the other.

  \<^verbatim>\<open>.replace(/[#\d\-\s]+$/, '')\<close> removes the longest run of hashes, digits, hyphens and
  white space that ends the string.
\<close>

definition is_trailer :: "char \<Rightarrow> bool" where
  "is_trailer c = (c = CHR ''#'' \<or> is_digit c \<or> c = CHR ''-'' \<or> is_space c)"

definition strip_trailing :: "string \<Rightarrow> string" where
  "strip_trailing s = rev (dropWhile is_trailer (rev s))"

text \<open>
  \<^verbatim>\<open>.replace(/\s+(inc|ltd|llc|corp|co|store|location)\.?$/i, '')\<close>. A match runs to the end
  of the string: an optional dot, before it one of the words, before it white space. The
  leftmost match starts where that run of white space starts, and is removed. The
  function works on the reversed string; no word of the list ends another, so at most
  one fits.
\<close>

definition business_suffixes :: "string list" where
  "business_suffixes = [''inc'', ''ltd'', ''llc'', ''corp'', ''co'', ''store'', ''location'']"

fun strip_word :: "string list \<Rightarrow> string \<Rightarrow> string option" where
  "strip_word [] r = None"
| "strip_word (w # ws) r =
     (if map ascii_lower (take (length w) r) = rev w \<and>
         (case drop (length w) r of [] \<Rightarrow> False | c # _ \<Rightarrow> is_space c)
      then Some (dropWhile is_space (drop (length w) r))
      else strip_word ws r)"

definition strip_business :: "string \<Rightarrow> string" where
  "strip_business s =
     (let r = rev s;
          r1 = (case r of c # r' \<Rightarrow> if c = CHR ''.'' then r' else r | [] \<Rightarrow> r)
      in case strip_word business_suffixes r1 of
           Some rest \<Rightarrow> rev rest
         | None \<Rightarrow> s)"

text \<open>\<^verbatim>\<open>.replace(/[^\w\s]/g, '')\<close> keeps the word characters and the white space.\<close>

definition strip_special :: "string \<Rightarrow> string" where
  "strip_special s = filter (\<lambda>c. is_word c \<or> is_space c) s"

definition normalize_merchant :: "string \<Rightarrow> string" where
  "normalize_merchant merchant = trim (strip_special (strip_business (strip_trailing (toLowerCase merchant))))"

text \<open>
  The entries of \<^verbatim>\<open>normalizedMerchants\<close>, and the groups returned. \<^verbatim>\<open>merchantCounts\<close> is
  read at the names of \<^verbatim>\<open>merchants\<close> only, which the caller takes from its keys, so every
  lookup finds a number; counts are integers.
\<close>

record entry =
  original :: string
  normalized :: string
  count :: int

record merchant_group =
  groupName :: string
  members :: "(string \<times> int) list"

definition mk_entry :: "(string \<Rightarrow> int) \<Rightarrow> string \<Rightarrow> entry" where
  "mk_entry merchantCounts merchant =
     \<lparr>original = merchant, normalized = normalize_merchant merchant, count = merchantCounts merchant\<rparr>"

text \<open>
  \<^verbatim>\<open>.split(/[\s#\d-]+/)[0]\<close>: the part of the string before its first white space, hash,
  digit or hyphen.
\<close>

definition first_token :: "string \<Rightarrow> string" where
  "first_token s = takeWhile (\<lambda>c. \<not> (is_space c \<or> c = CHR ''#'' \<or> is_digit c \<or> c = CHR ''-'')) s"

text \<open>
  \<^verbatim>\<open>similar.sort((a, b) => b.count - a.count)\<close>: a stable sort, the larger count first.
\<close>

definition sort_by_count :: "entry list \<Rightarrow> entry list" where
  "sort_by_count es = sort_key (\<lambda>e. - count e) es"

text \<open>
  The \<^verbatim>\<open>forEach\<close> over \<^verbatim>\<open>normalizedMerchants\<close>: the entries still to visit, all the entries,
  the set \<^verbatim>\<open>processed\<close> and the groups pushed so far.
\<close>

fun group_loop :: "entry list \<Rightarrow> entry list \<Rightarrow> string set \<Rightarrow> merchant_group list \<Rightarrow> merchant_group list" where
  "group_loop [] every processed groups = groups"
| "group_loop (merchant # rest) every processed groups =
     (if original merchant \<in> processed then group_loop rest every processed groups
      else
        let similar = filter (\<lambda>other. original other \<notin> processed \<and>
                                normalized other = normalized merchant \<and>
                                original other \<noteq> original merchant) every
        in if length similar > 0
           then
             let similar1 = merchant # similar;
                 processed1 = processed \<union> set (map original similar1);
                 sorted1 = sort_by_count similar1;
                 bestName = trim (first_token (original (hd sorted1)))
             in group_loop rest every processed1
                  (groups @ [\<lparr>groupName = bestName,
                              members = map (\<lambda>m. (original m, count m)) sorted1\<rparr>])
           else group_loop rest every processed groups)"

definition findSimilarMerchants :: "string list \<Rightarrow> (string \<Rightarrow> int) \<Rightarrow> merchant_group list" where
  "findSimilarMerchants merchants merchantCounts =
     (let normalizedMerchants = map (mk_entry merchantCounts) merchants
      in group_loop normalizedMerchants normalizedMerchants {} [])"

text \<open>The names of a group's members.\<close>

definition names :: "merchant_group \<Rightarrow> string list" where
  "names g = map fst (members g)"

text \<open>
  For the proof that the loop groups the names by their keys: a name collides when
  another name of the list has its normalized name; the class of a name is the names of
  the list with its normalized name; the invariant of the loop relates the names visited
  so far, the set \<^verbatim>\<open>processed\<close> and the groups pushed so far.
\<close>

definition collides :: "string list \<Rightarrow> string \<Rightarrow> bool" where
  "collides M m = (\<exists>m' \<in> set M. m' \<noteq> m \<and> normalize_merchant m' = normalize_merchant m)"

definition key_class :: "string list \<Rightarrow> string \<Rightarrow> string set" where
  "key_class M m = {x \<in> set M. normalize_merchant x = normalize_merchant m}"

definition loop_inv :: "string list \<Rightarrow> string set \<Rightarrow> string set \<Rightarrow> merchant_group list \<Rightarrow> bool" where
  "loop_inv M D P G =
     (P = set (concat (map names G)) \<and> distinct (concat (map names G)) \<and>
      (\<forall>g \<in> set G. \<exists>m \<in> set M. set (names g) = key_class M m \<and> collides M m) \<and>
      (\<forall>m \<in> D. collides M m \<longrightarrow> m \<in> P))"

text \<open>The example of the specification: the keys in insertion order, and their counts.\<close>

definition example_merchants :: "string list" where
  "example_merchants = [''Tim Hortons #12'', ''Tim Hortons #45'', ''Costco'']"

definition example_counts :: "string \<Rightarrow> int" where
  "example_counts m =
     (if m = ''Tim Hortons #12'' then 3 else if m = ''Tim Hortons #45'' then 1
      else if m = ''Costco'' then 5 else 0)"

section \<open>Regular expressions\<close>

text \<open>
  The patterns of the merchant cleaner are sequences of a few kinds of pieces: a literal
  (matched case-insensitively, the pattern being in lower case), an optional character
  of a class (\<^verbatim>\<open>#?\<close>), an optional literal (\<^verbatim>\<open>(wholesale)?\<close>), a greedy repetition of a class
  with a least count (\<^verbatim>\<open>\s*\<close>, \<^verbatim>\<open>\d+\<close>, \<^verbatim>\<open>\d{4,}\<close>), a lazy repetition of a class that is the
  capture group 1 (\<^verbatim>\<open>(.+?)\<close>), and the end of the input (\<^verbatim>\<open>$\<close>).

  \<^verbatim>\<open>rx_match\<close> lists the ways the pieces match a prefix of the input, in the order a
  backtracking matcher tries them: what group 1 captured, and the rest of the input. A
  greedy piece tries the longer match first, a lazy piece the shorter one.
\<close>

datatype piece =
  Lit string
| Opt "char \<Rightarrow> bool"
| OptLit string
| Rep nat "char \<Rightarrow> bool"
| LazyGroup nat "char \<Rightarrow> bool"
| End

definition lit_prefix :: "string \<Rightarrow> string \<Rightarrow> bool" where
  "lit_prefix w s = (map ascii_lower (take (length w) s) = w)"

fun rx_match :: "piece list \<Rightarrow> string \<Rightarrow> (string \<times> string) list" where
  "rx_match [] s = [([], s)]"
| "rx_match (Lit w # ps) s =
     (if lit_prefix w s then rx_match ps (drop (length w) s) else [])"
| "rx_match (Opt C # ps) s =
     (case s of
        [] \<Rightarrow> rx_match ps []
      | c # s' \<Rightarrow> (if C c then rx_match ps s' else []) @ rx_match ps s)"
| "rx_match (OptLit w # ps) s =
     (if lit_prefix w s then rx_match ps (drop (length w) s) else []) @ rx_match ps s"
| "rx_match (Rep n C # ps) s =
     (case s of
        [] \<Rightarrow> (if n = 0 then rx_match ps [] else [])
      | c # s' \<Rightarrow>
          (if C c then rx_match (Rep (n - 1) C # ps) s' else []) @
          (if n = 0 then rx_match ps s else []))"
| "rx_match (LazyGroup n C # ps) s =
     (if n = 0 then rx_match ps s else []) @
     (case s of
        [] \<Rightarrow> []
      | c # s' \<Rightarrow>
          if C c then map (\<lambda>(cap, r). (c # cap, r)) (rx_match (LazyGroup (n - 1) C # ps) s')
          else [])"
| "rx_match (End # ps) s = (if s = [] then rx_match ps [] else [])"

text \<open>
  The first match of a pattern in a string, looking at the start positions from the
  left: the position, the capture and the rest after the match. A pattern that starts
  with \<^verbatim>\<open>^\<close> is tried at position 0 only.
\<close>

fun rx_first :: "piece list \<Rightarrow> string \<Rightarrow> nat list \<Rightarrow> (nat \<times> string \<times> string) option" where
  "rx_first ps s [] = None"
| "rx_first ps s (i # is) =
     (case rx_match ps (drop i s) of
        [] \<Rightarrow> rx_first ps s is
      | (cap, r) # _ \<Rightarrow> Some (i, cap, r))"

record rule =
  pattern :: "piece list"
  anchored :: bool
  global :: bool
  cleanName :: string

definition rx_exec :: "rule \<Rightarrow> string \<Rightarrow> nat \<Rightarrow> (nat \<times> string \<times> string) option" where
  "rx_exec r s start =
     (if start > length s then None
      else rx_first (pattern r) s (if anchored r then (if start = 0 then [0] else [])
                                   else [start ..< Suc (length s)]))"

text \<open>
  \<^verbatim>\<open>pattern.test(cleaned)\<close>. Without the flag \<^verbatim>\<open>g\<close> the search starts at 0 and the pattern
  keeps no state. With it the search starts at \<^verbatim>\<open>lastIndex\<close>, which a match sets to the
  end of the match and a failure to 0. One pattern of the table has the flag, so the
  state of the table is one number, the \<^verbatim>\<open>lastIndex\<close> of that pattern.
\<close>

definition rx_test :: "rule \<Rightarrow> nat \<Rightarrow> string \<Rightarrow> bool \<times> nat" where
  "rx_test r lastIndex s =
     (if global r
      then (case rx_exec r s lastIndex of
              None \<Rightarrow> (False, 0)
            | Some (i, cap, rest) \<Rightarrow> (True, length s - length rest))
      else (rx_exec r s 0 \<noteq> None, lastIndex))"

text \<open>
  \<^verbatim>\<open>cleaned.replace(pattern, cleanName)\<close> for a pattern without the flag \<^verbatim>\<open>g\<close>: the first match
  is replaced by \<^verbatim>\<open>cleanName\<close>, in which \<^verbatim>\<open>$1\<close> stands for the capture. (The pattern with the
  flag \<^verbatim>\<open>g\<close> has a \<^verbatim>\<open>cleanName\<close> without \<^verbatim>\<open>$1\<close> and is never used in a replace.)
\<close>

fun expand :: "string \<Rightarrow> string \<Rightarrow> string" where
  "expand [] cap = []"
| "expand [c] cap = [c]"
| "expand (c # d # t) cap =
     (if c = CHR ''$'' \<and> d = CHR ''1'' then cap @ expand t cap else c # expand (d # t) cap)"

definition rx_replace :: "rule \<Rightarrow> string \<Rightarrow> string" where
  "rx_replace r s =
     (case rx_exec r s 0 of
        None \<Rightarrow> s
      | Some (i, cap, rest) \<Rightarrow> take i s @ expand (cleanName r) cap @ rest)"

text \<open>\<^verbatim>\<open>cleanName.includes('$1')\<close>.\<close>

fun str_includes :: "string \<Rightarrow> string \<Rightarrow> bool" where
  "str_includes sub [] = (sub = [])"
| "str_includes sub (c # s) = (take (length sub) (c # s) = sub \<or> str_includes sub s)"

section \<open>The merchant cleaner\<close>

text \<open>
  The character classes of the table: \<^verbatim>\<open>.\<close> is every character but the line terminators.
\<close>

definition is_dot :: "char \<Rightarrow> bool" where
  "is_dot c = ((of_char c :: nat) \<noteq> 10 \<and> (of_char c :: nat) \<noteq> 13)"

definition is_char :: "char \<Rightarrow> char \<Rightarrow> bool" where
  "is_char x c = (ascii_lower c = x)"

definition store_number :: "piece list" where
  "store_number = [Rep 0 is_space, Opt (is_char CHR ''#''), Rep 0 is_digit]"

definition brand :: "piece list \<Rightarrow> string \<Rightarrow> rule" where
  "brand ps name = \<lparr>pattern = ps @ store_number, anchored = False, global = False, cleanName = name\<rparr>"

text \<open>\<^verbatim>\<open>initializeRegexPatterns\<close>: the rules for the known brands, in the order of the table.\<close>

definition brand_rules :: "rule list" where
  "brand_rules =
     [brand [Lit ''wal'', Opt (\<lambda>c. c = CHR ''-'' \<or> is_space c), Lit ''mart''] ''Wal-Mart'',
      brand [Lit ''walmart''] ''Wal-Mart'',
      \<lparr>pattern = [Lit ''costco'', Rep 0 is_space, OptLit ''wholesale''] @ store_number,
        anchored = False, global = False, cleanName = ''Costco''\<rparr>,
      brand [Lit ''tim'', Rep 0 is_space, Lit ''horton'', Opt (is_char CHR ''s'')] ''Tim Hortons'',
      brand [Lit ''mcdonald'', Opt (is_char (CHR 0x27)), Lit ''s''] (''McDonald'' @ [CHR 0x27] @ ''s''),
      brand [Lit ''mcdonalds''] (''McDonald'' @ [CHR 0x27] @ ''s''),
      brand [Lit ''shopper'', Opt (is_char CHR ''s''), Rep 0 is_space, Lit ''drug'', Rep 0 is_space,
             Lit ''mart''] ''Shoppers Drug Mart'']"

text \<open>The rules that follow them: store number, location code, white space.\<close>

definition generic_rules :: "rule list" where
  "generic_rules =
     [\<lparr>pattern = [LazyGroup 1 is_dot, Rep 0 is_space, Lit ''#'', Rep 1 is_digit, Rep 0 is_dot, End],
        anchored = True, global = False, cleanName = ''$1''\<rparr>,
      \<lparr>pattern = [LazyGroup 1 is_dot, Rep 0 is_space, Rep 4 is_digit, Rep 0 is_dot, End],
        anchored = True, global = False, cleanName = ''$1''\<rparr>,
      \<lparr>pattern = [Rep 1 is_space], anchored = False, global = True, cleanName = '' ''\<rparr>]"

definition regexPatterns :: "rule list" where
  "regexPatterns = brand_rules @ generic_rules"

text \<open>
  The loop of \<^verbatim>\<open>cleanWithRegex\<close> over the rules: the cleaned name and the \<^verbatim>\<open>lastIndex\<close> left
  in the pattern with the flag \<^verbatim>\<open>g\<close>.
\<close>

fun apply_rules :: "rule list \<Rightarrow> nat \<Rightarrow> string \<Rightarrow> string \<times> nat" where
  "apply_rules [] lastIndex cleaned = (cleaned, lastIndex)"
| "apply_rules (r # rs) lastIndex cleaned =
     (case rx_test r lastIndex cleaned of
        (True, lastIndex') \<Rightarrow>
          (if str_includes ''$1'' (cleanName r) then rx_replace r cleaned else cleanName r,
           lastIndex')
      | (False, lastIndex') \<Rightarrow> apply_rules rs lastIndex' cleaned)"

text \<open>
  \<^verbatim>\<open>cleanWithRegex\<close> on a string; the empty string is falsy and returned as it is.
\<close>

definition cleanWithRegex :: "nat \<Rightarrow> string \<Rightarrow> string \<times> nat" where
  "cleanWithRegex lastIndex merchantName =
     (if merchantName = [] then (merchantName, lastIndex)
      else case apply_rules regexPatterns lastIndex (trim merchantName) of
             (cleaned, lastIndex') \<Rightarrow> (trim cleaned, lastIndex'))"

text \<open>
  The state of a \<^verbatim>\<open>MerchantCleaner\<close>: the API key of the object and the one in the storage
  (\<^verbatim>\<open>getApiKey\<close> takes the first that is not empty), the cache of cleaned names, a \<^verbatim>\<open>Map\<close>,
  and the \<^verbatim>\<open>lastIndex\<close> of the pattern with the flag \<^verbatim>\<open>g\<close>.
\<close>

record cleaner =
  openaiApiKey :: string
  storedApiKey :: string
  cleaningCache :: "(string \<times> string) list"
  lastIndex :: nat

definition getApiKey :: "cleaner \<Rightarrow> string" where
  "getApiKey st = (if openaiApiKey st \<noteq> [] then openaiApiKey st else storedApiKey st)"

datatype error = Error string

text \<open>
  \<^verbatim>\<open>cleanWithGPT4\<close>. The answer of the service is outside the program: \<^verbatim>\<open>None\<close> stands for
  every failure of the request (the fetch rejects, the status is not ok, the body is not
  the expected JSON), \<^verbatim>\<open>Some content\<close> for an answer with that content. Every failure
  inside the \<^verbatim>\<open>try\<close>, an empty content among them, ends in the \<^verbatim>\<open>catch\<close>, which returns
  \<^verbatim>\<open>this.cleanWithRegex(merchantName)\<close>.
\<close>

definition cleanWithGPT4 :: "cleaner \<Rightarrow> string option \<Rightarrow> string \<Rightarrow> (error + string) \<times> cleaner" where
  "cleanWithGPT4 st response merchantName =
     (if getApiKey st = [] then (Inl (Error ''OpenAI API key not configured''), st)
      else case map_of (cleaningCache st) merchantName of
        Some cached \<Rightarrow> (Inr cached, st)
      | None \<Rightarrow>
          (case response of
             Some content \<Rightarrow>
               if trim content \<noteq> []
               then (Inr (trim content),
                     st\<lparr>cleaningCache := map_set (cleaningCache st) merchantName (trim content)\<rparr>)
               else (case cleanWithRegex (lastIndex st) merchantName of
                       (cleaned, li) \<Rightarrow> (Inr cleaned, st\<lparr>lastIndex := li\<rparr>))
           | None \<Rightarrow>
               (case cleanWithRegex (lastIndex st) merchantName of
                  (cleaned, li) \<Rightarrow> (Inr cleaned, st\<lparr>lastIndex := li\<rparr>))))"

text \<open>\<^verbatim>\<open>cleanMerchantName\<close> on a string.\<close>

definition cleanMerchantName :: "cleaner \<Rightarrow> string option \<Rightarrow> string \<Rightarrow> (error + string) \<times> cleaner" where
  "cleanMerchantName st response merchantName =
     (if merchantName = [] then (Inr merchantName, st)
      else case cleanWithRegex (lastIndex st) merchantName of
        (regexCleaned, li) \<Rightarrow>
          let st1 = st\<lparr>lastIndex := li\<rparr>
          in if regexCleaned \<noteq> merchantName \<and> length regexCleaned > 3
             then (Inr regexCleaned,
                   st1\<lparr>cleaningCache := map_set (cleaningCache st1) merchantName regexCleaned\<rparr>)
             else if getApiKey st1 \<noteq> []
             then (case cleanWithGPT4 st1 response merchantName of
                     (Inr cleaned, st2) \<Rightarrow> (Inr cleaned, st2)
                   | (Inl e, st2) \<Rightarrow> (Inr regexCleaned, st2))
             else (Inr regexCleaned, st1))"

text \<open>The GPT call fails: the request fails, or the content of the answer is blank.\<close>

definition gpt_fails :: "string option \<Rightarrow> bool" where
  "gpt_fails response = (case response of None \<Rightarrow> True | Some content \<Rightarrow> trim content = [])"

text \<open>A string matches a known-brand rule: \<^verbatim>\<open>test\<close> of one of the brand patterns is true.\<close>

definition matches :: "string \<Rightarrow> rule \<Rightarrow> bool" where
  "matches s r = fst (rx_test r 0 s)"

definition example_cleaner :: cleaner where
  "example_cleaner =
     \<lparr>openaiApiKey = ''sk-example'', storedApiKey = [], cleaningCache = [], lastIndex = 0\<rparr>"

section \<open>An example table\<close>

definition example_rows :: table where
  "example_rows =
     [[Str ''Account'', Str ''Amount'', Str ''Merchant'', Str ''Description'', Str ''Date'',
       Str ''ID'', Str ''Notes'', Str ''Category'', Str ''Merchant Group''],
      [Str ''Visa'', Num (- 45), Str ''X'', Str [], Str ''2024-02-01'', Str ''t1''],
      [Str ''Visa'', Num (- 12), Str ''Y'', Str [], Str ''2024-02-29'', Str ''t2'', Null,
       Str ''Food'', Str ''Old''],
      [Str ''Debit'', Num (- 7), Str ''X'', Str [], Str ''2024-03-01'', Str ''t3'']]"

definition example_app :: app where
  "example_app =
     \<lparr>rowsData = example_rows, col_merchant = 2, col_merchantGroup = 8, col_payweek = - 1,
      selectedMonth = 1, selectedYear = 2024,
      enabled = False, originalData = None, pendingChanges = [], changedRows = []\<rparr>"

definition example_sheetId :: string where
  "example_sheetId = ''1AbCdEfGhIjKlMnOpQrStUvWxYz0123456789''"

definition example_edited :: app where
  "example_edited =
     applyCachedMerchantChange ''X'' ''GroupA'' (enableMerchantEditingCache example_app)"

text \<open>A sequence of \<^verbatim>\<open>applyCachedMerchantChange\<close> calls, in order.\<close>

fun apply_all :: "(string \<times> string) list \<Rightarrow> app \<Rightarrow> app" where
  "apply_all [] st = st"
| "apply_all ((merchantName, newGroupName) # edits) st =
     apply_all edits (applyCachedMerchantChange merchantName newGroupName st)"

text \<open>Two stores for the examples: one accepts every request, one rejects every request.\<close>

definition accepting_store :: "api_call \<Rightarrow> bool" where
  "accepting_store c = True"

definition rejecting_store :: "api_call \<Rightarrow> bool" where
  "rejecting_store c = False"


section \<open>Properties of the cache\<close>

lemma json_cell_idem: "json_cell (json_cell c) = json_cell c"
  by (cases c) simp_all

lemma json_copy_idem: "json_copy (json_copy t) = json_copy t"
  by (simp add: json_copy_def json_cell_idem)

lemma json_cell_defined: "c \<noteq> Undefined \<Longrightarrow> json_cell c = c"
  by (cases c) simp_all

lemma json_copy_defined:
  assumes no_holes: "\<forall>r \<in> set t. Undefined \<notin> set r"
  shows "json_copy t = t"
proof -
  have "map json_cell r = r" if "Undefined \<notin> set r" for r
    using that by (induction r) (auto intro: json_cell_defined)
  then show ?thesis
    using no_holes unfolding json_copy_def by (induction t) simp_all
qed

lemma apply_rows_cache:
  "enabled (apply_rows m g is st) = enabled st \<and>
   originalData (apply_rows m g is st) = originalData st"
  by (induction "is" arbitrary: st) (simp_all add: Let_def)

lemma apply_cache:
  "enabled (applyCachedMerchantChange m g st) = enabled st \<and>
   originalData (applyCachedMerchantChange m g st) = originalData st"
  by (simp add: applyCachedMerchantChange_def apply_rows_cache)

lemma apply_all_cache:
  "enabled (apply_all edits st) = enabled st \<and>
   originalData (apply_all edits st) = originalData st"
  by (induction edits st rule: apply_all.induct) (simp_all add: apply_cache)

lemma example_edited_eval:
  "enabled example_edited" "changedRows example_edited = [1, 3]"
  "col_merchantGroup example_edited = 8"
  "rowsData example_edited =
     [[Str ''Account'', Str ''Amount'', Str ''Merchant'', Str ''Description'', Str ''Date'',
       Str ''ID'', Str ''Notes'', Str ''Category'', Str ''Merchant Group''],
      [Str ''Visa'', Num (- 45), Str ''X'', Str [], Str ''2024-02-01'', Str ''t1'',
       Undefined, Undefined, Str ''GroupA''],
      [Str ''Visa'', Num (- 12), Str ''Y'', Str [], Str ''2024-02-29'', Str ''t2'', Null,
       Str ''Food'', Str ''Old''],
      [Str ''Debit'', Num (- 7), Str ''X'', Str [], Str ''2024-03-01'', Str ''t3'',
       Undefined, Undefined, Str ''GroupA'']]"
  by code_simp+

lemma example_sheetId_valid: "Validators_sheetId example_sheetId = Some example_sheetId"
  by code_simp

text \<open>
  C10. For every merchant name and group name, \<^verbatim>\<open>applyCachedMerchantChange\<close> called
  while the cache is disabled changes nothing: the row table, the pending-changes map,
  the changed-row set and every other field of the state are as before.
\<close>

theorem apply_disabled_noop:
  "\<not> enabled st \<Longrightarrow> applyCachedMerchantChange merchantName newGroupName st = st"
  by (simp add: applyCachedMerchantChange_def)

theorem apply_disabled_noop_witness:
  "\<not> enabled example_app \<and> applyCachedMerchantChange ''X'' ''GroupA'' example_app = example_app"
proof -
  have d: "\<not> enabled example_app"
    by (simp add: example_app_def)
  from d apply_disabled_noop [OF d, of "''X''" "''GroupA''"] show ?thesis
    by simp
qed

text \<open>
  C5. Whatever \<^verbatim>\<open>applyCachedMerchantChange\<close> calls follow \<^verbatim>\<open>enableMerchantEditingCache\<close>,
  \<^verbatim>\<open>revertCachedChanges\<close> leaves a row table equal to the snapshot taken by the enable, and
  the cache disabled (no snapshot, no pending change, no changed row). Called while the
  cache is disabled or without a snapshot, it leaves the state as it is.
\<close>

theorem revert_restores_snapshot:
  "(let st1 = enableMerchantEditingCache st;
        st2 = revertCachedChanges (apply_all edits st1)
    in Some (rowsData st2) = originalData st1 \<and> \<not> enabled st2 \<and> originalData st2 = None \<and>
       pendingChanges st2 = [] \<and> changedRows st2 = [])
   \<and> (\<not> enabled st' \<or> originalData st' = None \<longrightarrow> revertCachedChanges st' = st')"
proof -
  let ?st1 = "enableMerchantEditingCache st"
  let ?st2 = "revertCachedChanges (apply_all edits ?st1)"
  have snap: "originalData ?st1 = Some (json_copy (rowsData st))"
    by (simp add: enableMerchantEditingCache_def)
  have "enabled ?st1"
    by (simp add: enableMerchantEditingCache_def)
  with snap have c: "enabled (apply_all edits ?st1)"
    "originalData (apply_all edits ?st1) = Some (json_copy (rowsData st))"
    by (simp_all add: apply_all_cache)
  from c snap have "Some (rowsData ?st2) = originalData ?st1"
    by (simp add: revertCachedChanges_def disableMerchantEditingCache_def json_copy_idem)
  moreover from c have "\<not> enabled ?st2" "originalData ?st2 = None"
    "pendingChanges ?st2 = []" "changedRows ?st2 = []"
    by (simp_all add: revertCachedChanges_def disableMerchantEditingCache_def)
  moreover have "\<not> enabled st' \<or> originalData st' = None \<longrightarrow> revertCachedChanges st' = st'"
    by (auto simp: revertCachedChanges_def split: option.splits)
  ultimately show ?thesis
    by (simp add: Let_def)
qed

theorem revert_restores_snapshot_witness:
  "(let st1 = enableMerchantEditingCache example_app;
        st2 = revertCachedChanges (apply_all [(''X'', ''GroupA''), (''Y'', ''GroupA'')] st1)
    in Some (rowsData st2) = originalData st1 \<and> \<not> enabled st2 \<and> originalData st2 = None \<and>
       pendingChanges st2 = [] \<and> changedRows st2 = [] \<and> rowsData st2 = example_rows)
   \<and> \<not> enabled example_app \<and> originalData example_app = None
   \<and> revertCachedChanges example_app = example_app"
proof -
  have d: "\<not> enabled example_app" "originalData example_app = None"
    by (simp_all add: example_app_def)
  have e: "originalData (enableMerchantEditingCache example_app) = Some example_rows"
    by (simp add: enableMerchantEditingCache_def example_app_def example_rows_def json_copy_def)
  from d e
    revert_restores_snapshot
      [of example_app "[(''X'', ''GroupA''), (''Y'', ''GroupA'')]" example_app]
  show ?thesis
    by (simp add: Let_def)
qed

text \<open>
  When the table held no \<^verbatim>\<open>undefined\<close> entry at the enable, the snapshot is the table
  itself, and the revert gives back the table as it was before the enable.
\<close>

lemma revert_restores_table:
  assumes "\<forall>r \<in> set (rowsData st). Undefined \<notin> set r"
  shows "rowsData (revertCachedChanges (apply_all edits (enableMerchantEditingCache st))) =
         rowsData st"
proof -
  have "enabled (apply_all edits (enableMerchantEditingCache st))"
    "originalData (apply_all edits (enableMerchantEditingCache st)) =
       Some (json_copy (rowsData st))"
    by (simp_all add: apply_all_cache) (simp_all add: enableMerchantEditingCache_def)
  then show ?thesis
    using assms
    by (simp add: revertCachedChanges_def disableMerchantEditingCache_def json_copy_defined)
qed

subsection \<open>The commit\<close>

lemma commit_rows_ok:
  assumes "Validators_sheetId sheetId = Some sid"
    and "\<forall>i \<in> set rows. i < length (rowsData st)"
  shows "commit_rows store sheetId letter st rows =
           (map (\<lambda>i. UpdateCell sid (letter @ decimal (i + 1))
                       (row_get (rowsData st ! i) (col_merchantGroup st))) rows,
            \<forall>i \<in> set rows. store (UpdateCell sid (letter @ decimal (i + 1))
                       (row_get (rowsData st ! i) (col_merchantGroup st))))"
  using assms by (induction rows) (simp_all add: updateCell_def Let_def)

lemma commit_rows_rejected:
  "c \<in> set (fst (commit_rows store sheetId letter st rows)) \<Longrightarrow> \<not> store c \<Longrightarrow>
   \<not> snd (commit_rows store sheetId letter st rows)"
proof (induction rows)
  case Nil
  then show ?case by simp
next
  case (Cons i rows)
  show ?case
  proof (cases "i \<ge> length (rowsData st)")
    case True
    then show ?thesis by simp
  next
    case False
    obtain cs oks where r: "commit_rows store sheetId letter st rows = (cs, oks)"
      by (cases "commit_rows store sheetId letter st rows")
    show ?thesis
    proof (cases "Validators_sheetId sheetId")
      case None
      with False r show ?thesis by (simp add: updateCell_def)
    next
      case (Some sid)
      with False r Cons show ?thesis by (auto simp: updateCell_def Let_def)
    qed
  qed
qed

text \<open>
  C2. A commit that fails (a request rejected by the store makes it fail) returns false
  with the error shown and leaves the whole state as it was: the row table with the
  edits applied, the cache enabled, its snapshot and its changed rows. A commit that
  succeeds on an enabled cache with changed rows disables the cache (snapshot and changed
  rows cleared) and leaves the row table as it was.
\<close>

theorem commit_all_or_nothing:
  "(let r = commitCachedChanges store sheetId st in
      ((\<exists>c \<in> set (calls r). \<not> store c) \<longrightarrow> \<not> returned r) \<and>
      (\<not> returned r \<longrightarrow> state r = st \<and> shown r = Failed) \<and>
      (returned r \<and> enabled st \<and> changedRows st \<noteq> [] \<longrightarrow>
         state r = disableMerchantEditingCache st \<and>
         rowsData (state r) = rowsData st \<and> \<not> enabled (state r) \<and>
         originalData (state r) = None \<and> changedRows (state r) = []))"
proof -
  let ?letter = "numberToLetter (nat (col_merchantGroup st + 1))"
  obtain cs ok where r: "commit_rows store sheetId ?letter st (changedRows st) = (cs, ok)"
    by (cases "commit_rows store sheetId ?letter st (changedRows st)")
  have rej: "\<not> ok" if "c \<in> set cs" "\<not> store c" for c
    using commit_rows_rejected [of c store sheetId ?letter st "changedRows st"] that r
    by simp
  show ?thesis
  proof (cases "\<not> enabled st \<or> changedRows st = []")
    case True
    then show ?thesis by (auto simp: commitCachedChanges_def)
  next
    case False
    show ?thesis
    proof (cases ok)
      case True
      with False r rej show ?thesis
        by (auto simp: commitCachedChanges_def Let_def disableMerchantEditingCache_def)
    next
      case no: False
      with False r show ?thesis
        by (simp add: commitCachedChanges_def Let_def)
    qed
  qed
qed

lemma example_commit_rejected:
  "calls (commitCachedChanges rejecting_store example_sheetId example_edited) =
     [UpdateCell example_sheetId ''I2'' (Str ''GroupA''),
      UpdateCell example_sheetId ''I4'' (Str ''GroupA'')]"
  by code_simp

lemma example_commit_accepted:
  "returned (commitCachedChanges accepting_store example_sheetId example_edited)"
  by code_simp

theorem commit_all_or_nothing_witness:
  "(\<exists>c \<in> set (calls (commitCachedChanges rejecting_store example_sheetId example_edited)).
       \<not> rejecting_store c) \<and>
   \<not> returned (commitCachedChanges rejecting_store example_sheetId example_edited) \<and>
   state (commitCachedChanges rejecting_store example_sheetId example_edited) = example_edited \<and>
   shown (commitCachedChanges rejecting_store example_sheetId example_edited) = Failed \<and>
   returned (commitCachedChanges accepting_store example_sheetId example_edited) \<and>
   enabled example_edited \<and> changedRows example_edited \<noteq> [] \<and>
   state (commitCachedChanges accepting_store example_sheetId example_edited) =
     disableMerchantEditingCache example_edited \<and>
   rowsData (state (commitCachedChanges accepting_store example_sheetId example_edited)) =
     rowsData example_edited"
proof -
  have rej: "\<exists>c \<in> set (calls (commitCachedChanges rejecting_store example_sheetId example_edited)).
       \<not> rejecting_store c"
    by (auto simp: example_commit_rejected rejecting_store_def)
  have acc: "returned (commitCachedChanges accepting_store example_sheetId example_edited)"
    "enabled example_edited" "changedRows example_edited \<noteq> []"
    by (simp_all add: example_commit_accepted example_edited_eval)
  from rej acc
    commit_all_or_nothing [of rejecting_store example_sheetId example_edited]
    commit_all_or_nothing [of accepting_store example_sheetId example_edited]
  show ?thesis
    by (auto simp: Let_def)
qed

text \<open>
  C1, as the code has it. For an enabled cache with changed rows, all of them rows of
  the table, and a valid sheet id, \<^verbatim>\<open>commitCachedChanges\<close> sends one \<^verbatim>\<open>updateCell\<close> request
  for each changed row, in the order the rows were first changed: the request carries the
  row's current merchant-group cell and addresses it by the column letter and the row
  index plus one. There is no batch request. The commit returns true exactly when the
  store accepts every request, and then the message shown counts the changed rows.
\<close>

theorem commit_writes_changed_rows:
  assumes "enabled st" and "changedRows st \<noteq> []"
    and "Validators_sheetId sheetId = Some sid"
    and "\<forall>i \<in> set (changedRows st). i < length (rowsData st)"
  shows "calls (commitCachedChanges store sheetId st) =
           map (\<lambda>i. UpdateCell sid
                      (numberToLetter (nat (col_merchantGroup st + 1)) @ decimal (i + 1))
                      (row_get (rowsData st ! i) (col_merchantGroup st)))
               (changedRows st)
       \<and> returned (commitCachedChanges store sheetId st) =
           (\<forall>c \<in> set (calls (commitCachedChanges store sheetId st)). store c)
       \<and> (returned (commitCachedChanges store sheetId st) \<longrightarrow>
           shown (commitCachedChanges store sheetId st) = Saved (length (changedRows st)))"
  using assms
    commit_rows_ok [OF assms(3,4), of store "numberToLetter (nat (col_merchantGroup st + 1))"]
  by (simp add: commitCachedChanges_def Let_def)

theorem commit_writes_changed_rows_witness:
  "enabled example_edited \<and> changedRows example_edited \<noteq> [] \<and>
   Validators_sheetId example_sheetId = Some example_sheetId \<and>
   list_all (\<lambda>i. i < length (rowsData example_edited)) (changedRows example_edited) \<and>
   calls (commitCachedChanges accepting_store example_sheetId example_edited) =
     [UpdateCell example_sheetId ''I2'' (Str ''GroupA''),
      UpdateCell example_sheetId ''I4'' (Str ''GroupA'')] \<and>
   returned (commitCachedChanges accepting_store example_sheetId example_edited) \<and>
   shown (commitCachedChanges accepting_store example_sheetId example_edited) = Saved 2"
proof -
  have h: "enabled example_edited" "changedRows example_edited \<noteq> []"
    "Validators_sheetId example_sheetId = Some example_sheetId"
    "\<forall>i \<in> set (changedRows example_edited). i < length (rowsData example_edited)"
    by (simp_all add: example_edited_eval example_sheetId_valid)
  have l: "numberToLetter (nat (8 + 1)) = ''I''" "decimal (1 + 1) = ''2''"
    "decimal (3 + 1) = ''4''"
    by code_simp+
  from h l commit_writes_changed_rows [OF h, of accepting_store]
  show ?thesis
    by (simp add: example_edited_eval accepting_store_def row_get_def list_all_iff)
qed

text \<open>
  The claim as written fails: two changed rows make two single-cell requests, not one
  batch request, and the value returned is a boolean, not a count.
\<close>

theorem commit_one_batch_counterexample:
  "enabled example_edited \<and> changedRows example_edited = [1, 3] \<and>
   calls (commitCachedChanges accepting_store example_sheetId example_edited) =
     [UpdateCell example_sheetId ''I2'' (Str ''GroupA''),
      UpdateCell example_sheetId ''I4'' (Str ''GroupA'')] \<and>
   calls (commitCachedChanges accepting_store example_sheetId example_edited) \<noteq>
     [BatchUpdateCells example_sheetId [(''I2'', Str ''GroupA''), (''I4'', Str ''GroupA'')]] \<and>
   returned (commitCachedChanges accepting_store example_sheetId example_edited) = True"
  by code_simp

section \<open>Properties of the budget periods\<close>

text \<open>
  In exact arithmetic the two conversions are inverse to each other, for every period.
\<close>

lemma budget_round_trip_exact:
  "convertBudgetToBase (convertBudgetFromBase amount p) p = amount"
  "convertBudgetFromBase (convertBudgetToBase amount p) p = amount"
  by (cases p; simp add: payweeksPerYear_def)+

section \<open>Properties of the calendar\<close>

text \<open>
  \<^verbatim>\<open>YearFromTime\<close> is the year the ECMAScript specification defines: the first day of the
  year is not after the day of \<^verbatim>\<open>t\<close>, and the first day of the next year is.
\<close>

lemma leap_terms_abs:
  fixes k a b c r1 r2 r3 :: int
  assumes e: "k + 1 = 4 * a + r1" "k + 69 = 100 * b + r2" "k + 369 = 400 * c + r3"
    and r: "0 \<le> r1" "r1 < 4" "0 \<le> r2" "r2 < 100" "0 \<le> r3" "r3 < 400"
  shows "0 \<le> k \<Longrightarrow> a - b + c \<le> k" and "k < 0 \<Longrightarrow> a - b + c \<le> 0"
proof -
  have s: "400 * a - 400 * b + 400 * c \<le> 97 * k + 589"
    using e r by linarith
  have small: "b = 0 \<and> c = 0" if "- 7 < k" "k < 2"
  proof -
    have "100 * b + r2 < 100" "0 \<le> 100 * b + r2" "400 * c + r3 < 400" "0 \<le> 400 * c + r3"
      using that e by linarith+
    with r show ?thesis by linarith
  qed
  show "a - b + c \<le> k" if "0 \<le> k"
  proof (cases "k < 2")
    case True
    with small that have "b = 0" "c = 0" by simp_all
    with e r True that show ?thesis by linarith
  next
    case False
    with s show ?thesis by linarith
  qed
  show "a - b + c \<le> 0" if "k < 0"
  proof (cases "- 7 < k")
    case True
    with small that have "b = 0" "c = 0" by simp_all
    with e r True that show ?thesis by linarith
  next
    case False
    with s show ?thesis by linarith
  qed
qed

lemma year_search_spec:
  "DayFromYear y \<le> d \<Longrightarrow>
   DayFromYear (year_search d y) \<le> d \<and> d < DayFromYear (year_search d y + 1)"
proof (induction d y rule: year_search.induct)
  case (1 d y)
  show ?case
  proof (cases "DayFromYear (y + 1) \<le> d")
    case True
    with 1 show ?thesis by (simp add: year_search.simps [of d y])
  next
    case False
    with 1 show ?thesis by (simp add: year_search.simps [of d y])
  qed
qed

lemma leap_terms:
  fixes k :: int
  shows "0 \<le> k \<Longrightarrow> (k + 1) div 4 - (k + 69) div 100 + (k + 369) div 400 \<le> k"
    and "k < 0 \<Longrightarrow> (k + 1) div 4 - (k + 69) div 100 + (k + 369) div 400 \<le> 0"
proof -
  have e: "k + 1 = 4 * ((k + 1) div 4) + (k + 1) mod 4"
    "k + 69 = 100 * ((k + 69) div 100) + (k + 69) mod 100"
    "k + 369 = 400 * ((k + 369) div 400) + (k + 369) mod 400"
    by simp_all
  have r: "0 \<le> (k + 1) mod 4" "(k + 1) mod 4 < 4" "0 \<le> (k + 69) mod 100"
    "(k + 69) mod 100 < 100" "0 \<le> (k + 369) mod 400" "(k + 369) mod 400 < 400"
    by simp_all
  show "0 \<le> k \<Longrightarrow> (k + 1) div 4 - (k + 69) div 100 + (k + 369) div 400 \<le> k"
    by (rule leap_terms_abs(1) [OF e r])
  show "k < 0 \<Longrightarrow> (k + 1) div 4 - (k + 69) div 100 + (k + 369) div 400 \<le> 0"
    by (rule leap_terms_abs(2) [OF e r])
qed

lemma DayFromYear_offset:
  "DayFromYear (1970 + k) = 365 * k + ((k + 1) div 4 - (k + 69) div 100 + (k + 369) div 400)"
  by (simp add: DayFromYear_def algebra_simps)

lemma start_below: "DayFromYear (1970 + (if 0 \<le> d then d div 366 else d div 365)) \<le> d"
proof (cases "0 \<le> d")
  case True
  define k where "k = d div 366"
  have k: "0 \<le> k" using True by (simp add: k_def pos_imp_zdiv_nonneg_iff)
  have "d = 366 * k + d mod 366" by (simp add: k_def)
  moreover have "0 \<le> d mod 366" by simp
  ultimately have "366 * k \<le> d" by linarith
  with leap_terms(1) [OF k] have "DayFromYear (1970 + k) \<le> d"
    unfolding DayFromYear_offset by linarith
  with True show ?thesis by (simp add: k_def)
next
  case False
  define k where "k = d div 365"
  have k: "k < 0" using False by (simp add: k_def pos_imp_zdiv_neg_iff)
  have "d = 365 * k + d mod 365" by (simp add: k_def)
  moreover have "0 \<le> d mod 365" by simp
  ultimately have "365 * k \<le> d" by linarith
  with leap_terms(2) [OF k] have "DayFromYear (1970 + k) \<le> d"
    unfolding DayFromYear_offset by linarith
  with False show ?thesis by (simp add: k_def)
qed

lemma YearFromTime_spec:
  "DayFromYear (YearFromTime t) \<le> Day t \<and> Day t < DayFromYear (YearFromTime t + 1)"
  unfolding YearFromTime_def Let_def
  by (rule year_search_spec) (rule start_below)

section \<open>Properties of the period filter\<close>

lemma filtered_rows_in_period:
  assumes "currentPeriod \<noteq> NoPeriod"
  shows "set (getFilteredRows tza parse st currentPeriod now clock) =
           {transaction \<in> set (tl (rowsData st)).
              in_period tza parse st currentPeriod now (clock transaction) transaction}"
proof (cases "length (rowsData st) \<le> 1")
  case True
  then have "tl (rowsData st) = []"
    by (cases "rowsData st") simp_all
  with True show ?thesis
    by (simp add: getFilteredRows_def)
next
  case False
  with assms show ?thesis
    by (auto simp: getFilteredRows_def Let_def)
qed













section \<open>Properties of the grouping\<close>

lemma original_mk [simp]: "original (mk_entry c m) = m"
  and normalized_mk [simp]: "normalized (mk_entry c m) = normalize_merchant m"
  and count_mk [simp]: "count (mk_entry c m) = c m"
  by (simp_all add: mk_entry_def)

lemma names_sorted:
  "map fst (map (\<lambda>e. (original e, count e)) (sort_by_count (map (mk_entry c) xs))) =
   map original (sort_by_count (map (mk_entry c) xs))"
  by (simp add: comp_def)

lemma set_names_sorted:
  "set (map original (sort_by_count (map (mk_entry c) xs))) = set xs"
  by (simp add: sort_by_count_def image_image)

lemma distinct_names_sorted:
  "distinct xs \<Longrightarrow> distinct (map original (sort_by_count (map (mk_entry c) xs)))"
  by (simp add: sort_by_count_def distinct_map inj_on_def mk_entry_def)

lemma loop_inv_closed:
  assumes "loop_inv M D P G" and "x \<in> P" and "y \<in> set M" and "normalize_merchant y = normalize_merchant x"
  shows "y \<in> P"
proof -
  from assms(1,2) obtain g where g: "g \<in> set G" "x \<in> set (names g)"
    by (auto simp: loop_inv_def)
  with assms(1) obtain m where "set (names g) = key_class M m"
    by (auto simp: loop_inv_def)
  with g assms(3,4) have "y \<in> set (names g)"
    by (simp add: key_class_def)
  with g(1) assms(1) show ?thesis
    by (auto simp: loop_inv_def)
qed

lemma group_loop_inv:
  assumes "distinct M"
  shows "set ms \<subseteq> set M \<Longrightarrow> loop_inv M D P G \<Longrightarrow>
         \<exists>P'. loop_inv M (D \<union> set ms) P'
                 (group_loop (map (mk_entry c) ms) (map (mk_entry c) M) P G)"
proof (induction ms arbitrary: D P G)
  case Nil
  then show ?case by auto
next
  case (Cons m ms)
  have m: "m \<in> set M" and ms: "set ms \<subseteq> set M"
    using Cons.prems(1) by simp_all
  have un: "D \<union> set (m # ms) = (D \<union> {m}) \<union> set ms"
    by auto
  show ?case
  proof (cases "m \<in> P")
    case True
    with Cons.prems(2) have "loop_inv M (D \<union> {m}) P G"
      by (auto simp: loop_inv_def)
    from Cons.IH [OF ms this] True show ?thesis
      unfolding un by simp
  next
    case False
    define others where "others = filter (\<lambda>x. normalize_merchant x = normalize_merchant m \<and> x \<noteq> m) M"
    have open_class: "x \<notin> P" if "x \<in> set M" "normalize_merchant x = normalize_merchant m" for x
      using loop_inv_closed [OF Cons.prems(2) _ m, of x] that False by auto
    have sim: "filter (\<lambda>other. original other \<notin> P \<and> normalized other = normalized (mk_entry c m) \<and>
                  original other \<noteq> original (mk_entry c m)) (map (mk_entry c) M) =
               map (mk_entry c) others"
      unfolding others_def filter_map comp_def
      by (rule arg_cong [where f = "map (mk_entry c)"], rule filter_cong) (auto simp: open_class)
    show ?thesis
    proof (cases "others = []")
      case True
      then have "\<not> collides M m"
        by (auto simp: others_def collides_def filter_empty_conv)
      with Cons.prems(2) have "loop_inv M (D \<union> {m}) P G"
        by (auto simp: loop_inv_def)
      from Cons.IH [OF ms this] False True sim show ?thesis
        unfolding un by simp
    next
      case ne: False
      define g where "g = \<lparr>groupName = trim (first_token (original (hd (sort_by_count (map (mk_entry c) (m # others)))))),
                            members = map (\<lambda>e. (original e, count e)) (sort_by_count (map (mk_entry c) (m # others)))\<rparr>"
      have names_g: "names g = map original (sort_by_count (map (mk_entry c) (m # others)))"
        unfolding g_def names_def by (simp only: merchant_group.simps names_sorted)
      have "set (names g) = set (m # others)"
        unfolding names_g by (rule set_names_sorted)
      also have "\<dots> = key_class M m"
        using m by (auto simp: key_class_def others_def)
      finally have set_g: "set (names g) = key_class M m" .
      have "distinct (m # others)"
        using assms by (simp add: others_def)
      then have dist_g: "distinct (names g)"
        unfolding names_g by (rule distinct_names_sorted)
      have col: "collides M m"
        using ne by (auto simp: others_def collides_def filter_empty_conv)
      have disj: "set (names g) \<inter> P = {}"
        using open_class by (auto simp: set_g key_class_def)
      have "loop_inv M (D \<union> {m}) (P \<union> set (m # others)) (G @ [g])"
        unfolding loop_inv_def
      proof (intro conjI)
        show "P \<union> set (m # others) = set (concat (map names (G @ [g])))"
          using Cons.prems(2) m
          by (auto simp: loop_inv_def set_g key_class_def others_def)
        show "distinct (concat (map names (G @ [g])))"
          using Cons.prems(2) dist_g disj by (auto simp: loop_inv_def)
        show "\<forall>g \<in> set (G @ [g]). \<exists>m \<in> set M. set (names g) = key_class M m \<and> collides M m"
          using Cons.prems(2) set_g col m by (auto simp: loop_inv_def)
        show "\<forall>x \<in> D \<union> {m}. collides M x \<longrightarrow> x \<in> P \<union> set (m # others)"
          using Cons.prems(2) by (auto simp: loop_inv_def)
      qed
      from Cons.IH [OF ms this] obtain P' where
        "loop_inv M (D \<union> {m} \<union> set ms) P'
           (group_loop (map (mk_entry c) ms) (map (mk_entry c) M) (P \<union> set (m # others)) (G @ [g]))"
        by blast
      moreover have "group_loop (map (mk_entry c) (m # ms)) (map (mk_entry c) M) P G =
        group_loop (map (mk_entry c) ms) (map (mk_entry c) M) (P \<union> set (m # others)) (G @ [g])"
        using False ne sim by (simp add: g_def Let_def image_image del: sort_by_count_def)
      ultimately show ?thesis
        unfolding un by auto
    qed
  qed
qed

text \<open>
  C6. Given distinct names (the keys of \<^verbatim>\<open>merchantCounts\<close>), the names that
  \<^verbatim>\<open>findSimilarMerchants\<close> puts into groups are exactly the names whose normalized name is
  also that of another name; no name is in two groups or twice in one; and the names of
  every group are all the names of the list with one normalized name. So two or more names
  with one normalized name form one group, and a name that collides with no other is in
  no group.
\<close>

theorem similar_merchants_grouped:
  assumes "distinct merchants"
  shows "set (concat (map names (findSimilarMerchants merchants merchantCounts))) =
           {m \<in> set merchants. \<exists>m' \<in> set merchants. m' \<noteq> m \<and> normalize_merchant m' = normalize_merchant m}
       \<and> distinct (concat (map names (findSimilarMerchants merchants merchantCounts)))
       \<and> (\<forall>g \<in> set (findSimilarMerchants merchants merchantCounts).
            \<exists>m \<in> set merchants.
              set (names g) = {x \<in> set merchants. normalize_merchant x = normalize_merchant m})"
proof -
  let ?G = "findSimilarMerchants merchants merchantCounts"
  have "loop_inv merchants {} {} []"
    by (simp add: loop_inv_def)
  from group_loop_inv [OF assms subset_refl this, of merchantCounts]
  obtain P where inv: "loop_inv merchants (set merchants) P ?G"
    by (auto simp: findSimilarMerchants_def Let_def)
  have "set (concat (map names ?G)) = {m \<in> set merchants. collides merchants m}"
  proof (intro equalityI subsetI)
    fix x assume "x \<in> set (concat (map names ?G))"
    then obtain g where g: "g \<in> set ?G" "x \<in> set (names g)" by auto
    with inv obtain m where m: "m \<in> set merchants" "set (names g) = key_class merchants m"
      "collides merchants m"
      unfolding loop_inv_def by blast
    from g(2) m(2) have x: "x \<in> set merchants" "normalize_merchant x = normalize_merchant m"
      by (simp_all add: key_class_def)
    from m(3) obtain m' where "m' \<in> set merchants" "m' \<noteq> m" "normalize_merchant m' = normalize_merchant m"
      by (auto simp: collides_def)
    with x m(1) have "collides merchants x"
      unfolding collides_def by (cases "x = m") auto
    with x show "x \<in> {m \<in> set merchants. collides merchants m}" by simp
  next
    fix x assume "x \<in> {m \<in> set merchants. collides merchants m}"
    with inv show "x \<in> set (concat (map names ?G))"
      unfolding loop_inv_def by blast
  qed
  moreover from inv have "distinct (concat (map names ?G))"
    by (simp add: loop_inv_def)
  moreover from inv have "\<forall>g \<in> set ?G. \<exists>m \<in> set merchants.
      set (names g) = {x \<in> set merchants. normalize_merchant x = normalize_merchant m}"
    unfolding loop_inv_def key_class_def by blast
  ultimately show ?thesis
    by (simp add: collides_def)
qed

lemma example_groups:
  "findSimilarMerchants example_merchants example_counts =
     [\<lparr>groupName = ''Tim'',
       members = [(''Tim Hortons #12'', 3), (''Tim Hortons #45'', 1)]\<rparr>]"
  by code_simp

text \<open>
  The example of the specification: the two Tim Hortons names form the one group, and
  Costco is in no group.
\<close>

theorem similar_merchants_grouped_witness:
  "distinct example_merchants \<and>
   findSimilarMerchants example_merchants example_counts =
     [\<lparr>groupName = ''Tim'',
       members = [(''Tim Hortons #12'', 3), (''Tim Hortons #45'', 1)]\<rparr>] \<and>
   set (concat (map names (findSimilarMerchants example_merchants example_counts))) =
     {''Tim Hortons #12'', ''Tim Hortons #45''} \<and>
   ''Costco'' \<notin> set (concat (map names (findSimilarMerchants example_merchants example_counts))) \<and>
   distinct (concat (map names (findSimilarMerchants example_merchants example_counts)))"
proof -
  have d: "distinct example_merchants"
    by (simp add: example_merchants_def)
  from similar_merchants_grouped [OF d, of example_counts]
  have "distinct (concat (map names (findSimilarMerchants example_merchants example_counts)))"
    by blast
  with d show ?thesis
    by (simp add: example_groups names_def)
qed

section \<open>Properties of the merchant cleaner\<close>

lemma rx_test_plain: "\<not> global r \<Longrightarrow> rx_test r li s = (matches s r, li)"
  by (simp add: rx_test_def matches_def)

lemma brand_rules_shape:
  "list_all (\<lambda>r. \<not> global r \<and> \<not> str_includes ''$1'' (cleanName r) \<and>
                 trim (cleanName r) = cleanName r \<and> cleanName r \<noteq> [] \<and> \<not> matches [] r)
     brand_rules"
  by code_simp

lemma brand_rules_fixpoint:
  "list_all (\<lambda>r. case find (matches (trim (cleanName r))) brand_rules of
                   Some r' \<Rightarrow> cleanName r' = cleanName r
                 | None \<Rightarrow> False)
     brand_rules"
  by code_simp

lemma find_first_in:
  "\<exists>r \<in> set rs. P r \<Longrightarrow> \<exists>r \<in> set rs. find P rs = Some r \<and> P r"
  by (induction rs) auto

lemma find_prefix: "find P rs = Some r \<Longrightarrow> find P (rs @ rest) = Some r"
  by (induction rs) (auto split: if_splits)

lemma apply_rules_first:
  assumes "\<forall>r \<in> set rs. \<not> global r \<and> \<not> str_includes ''$1'' (cleanName r)"
    and "find (matches s) rs = Some r"
  shows "apply_rules (rs @ rest) li s = (cleanName r, li)"
  using assms
proof (induction rs)
  case Nil
  then show ?case by simp
next
  case (Cons a rs)
  then show ?case
    by (cases "matches s a") (simp_all add: rx_test_plain)
qed

lemma clean_brand:
  assumes "r \<in> set brand_rules" and "find (matches (trim x)) brand_rules = Some r"
  shows "cleanWithRegex li x = (cleanName r, li)"
proof -
  have shape: "\<forall>r \<in> set brand_rules. \<not> global r \<and> \<not> str_includes ''$1'' (cleanName r) \<and>
      trim (cleanName r) = cleanName r \<and> cleanName r \<noteq> [] \<and> \<not> matches [] r"
    using brand_rules_shape by (simp add: list_all_iff)
  from assms(2) have "matches (trim x) r"
    by (auto simp: find_Some_iff)
  with shape assms(1) have "trim x \<noteq> []"
    by auto
  then have "x \<noteq> []"
    by (auto simp: trim_def)
  moreover have "apply_rules regexPatterns li (trim x) = (cleanName r, li)"
    unfolding regexPatterns_def using shape assms(2) by (intro apply_rules_first) auto
  ultimately show ?thesis
    using shape assms(1) by (simp add: cleanWithRegex_def)
qed

text \<open>
  C7. For every raw merchant string that, trimmed as \<^verbatim>\<open>cleanWithRegex\<close> trims it, matches
  a known-brand rule, the first rule of the table that matches is a known-brand rule, and
  \<^verbatim>\<open>cleanWithRegex\<close> returns the brand name of that rule and nothing else, whatever the
  state of the table; cleaning the result again gives the result.
\<close>

theorem brand_rule_wins:
  assumes "\<exists>r \<in> set brand_rules. matches (trim x) r"
  shows "\<exists>r \<in> set brand_rules.
           find (matches (trim x)) regexPatterns = Some r \<and>
           cleanWithRegex li x = (cleanName r, li) \<and>
           fst (cleanWithRegex li' (fst (cleanWithRegex li x))) = fst (cleanWithRegex li x)"
proof -
  from find_first_in [OF assms] obtain r where r: "r \<in> set brand_rules"
    "find (matches (trim x)) brand_rules = Some r"
    by blast
  from brand_rules_fixpoint r(1) obtain r' where r': "find (matches (trim (cleanName r))) brand_rules = Some r'"
    "cleanName r' = cleanName r"
    by (auto simp: list_all_iff split: option.splits)
  from r'(1) have "r' \<in> set brand_rules"
    by (auto simp: find_Some_iff)
  from clean_brand [OF this r'(1), of li'] r'(2)
  have "cleanWithRegex li' (cleanName r) = (cleanName r, li')"
    by simp
  with clean_brand [OF r, of li] clean_brand [OF r, of li'] find_prefix [OF r(2), of generic_rules] r(1)
  show ?thesis
    by (auto simp: regexPatterns_def)
qed

lemma walmart_eval:
  "matches (trim ''WAL-MART #3454'') (brand_rules ! 0)"
  "cleanWithRegex 0 ''WAL-MART #3454'' = (''Wal-Mart'', 0)"
  "cleanWithRegex 0 ''WAL-MART #3454 EXTRA'' = (''Wal-Mart'', 0)"
  by code_simp+

text \<open>
  The example of the specification: \<^verbatim>\<open>WAL-MART #3454\<close> is cleaned to \<^verbatim>\<open>Wal-Mart\<close>, which is
  cleaned to itself.
\<close>

theorem brand_rule_wins_witness:
  "(\<exists>r \<in> set brand_rules. matches (trim ''WAL-MART #3454'') r) \<and>
   cleanWithRegex 0 ''WAL-MART #3454'' = (''Wal-Mart'', 0) \<and>
   fst (cleanWithRegex 0 ''Wal-Mart'') = ''Wal-Mart''"
proof -
  have "brand_rules ! 0 \<in> set brand_rules"
    by (simp add: brand_rules_def)
  with walmart_eval(1) have h: "\<exists>r \<in> set brand_rules. matches (trim ''WAL-MART #3454'') r"
    by blast
  from brand_rule_wins [OF h, of 0 0] walmart_eval(2) h show ?thesis
    by auto
qed


lemma gpt_fallback:
  assumes "gpt_fails response" and "map_of (cleaningCache st) name = None"
    and "getApiKey st \<noteq> []"
  shows "fst (cleanWithGPT4 st response name) = Inr (fst (cleanWithRegex (lastIndex st) name))"
  using assms
  by (auto simp: cleanWithGPT4_def gpt_fails_def split: option.splits prod.splits)

lemma gpt_result:
  "getApiKey st \<noteq> [] \<Longrightarrow> \<exists>v. fst (cleanWithGPT4 st response name) = Inr v"
  by (auto simp: cleanWithGPT4_def split: option.splits prod.splits)

lemma clean_merchant_name_result:
  "(\<exists>v. fst (cleanMerchantName st response name) = Inr v) \<and>
   (gpt_fails response \<and> map_of (cleaningCache st) name = None \<longrightarrow>
      fst (cleanMerchantName st response name) =
        Inr (case cleanWithRegex (lastIndex st) name of
               (regexCleaned, li) \<Rightarrow>
                 if (regexCleaned \<noteq> name \<and> length regexCleaned > 3) \<or> getApiKey st = []
                 then regexCleaned
                 else fst (cleanWithRegex li name)))"
proof (cases "name = []")
  case True
  then show ?thesis
    by (simp add: cleanMerchantName_def cleanWithRegex_def)
next
  case False
  obtain regexCleaned li where c: "cleanWithRegex (lastIndex st) name = (regexCleaned, li)"
    by (cases "cleanWithRegex (lastIndex st) name")
  define st1 where "st1 = st\<lparr>lastIndex := li\<rparr>"
  have st1: "cleaningCache st1 = cleaningCache st" "lastIndex st1 = li"
    "getApiKey st1 = getApiKey st"
    by (simp_all add: st1_def getApiKey_def)
  show ?thesis
  proof (cases "(regexCleaned \<noteq> name \<and> length regexCleaned > 3) \<or> getApiKey st = []")
    case True
    with False c show ?thesis
      by (auto simp: cleanMerchantName_def Let_def getApiKey_def)
  next
    case gpt: False
    then have key: "getApiKey st1 \<noteq> []"
      by (simp add: st1)
    obtain res st2 where g: "cleanWithGPT4 st1 response name = (res, st2)"
      by (cases "cleanWithGPT4 st1 response name")
    from gpt_result [OF key, of response name] g obtain v where v: "res = Inr v"
      by auto
    from gpt have plain: "\<not> (regexCleaned \<noteq> name \<and> length regexCleaned > 3)"
      by blast
    from False c plain key g v have out: "fst (cleanMerchantName st response name) = Inr v"
      by (auto simp: cleanMerchantName_def Let_def st1_def [symmetric] st1)
    have "v = fst (cleanWithRegex li name)"
      if "gpt_fails response" "map_of (cleaningCache st) name = None"
      using gpt_fallback [OF that(1) _ key, of name] that(2) g v by (simp add: st1)
    with out c gpt show ?thesis
      by auto
  qed
qed




lemma apply_rules_plain:
  assumes "\<forall>r \<in> set rs. \<not> global r"
  shows "apply_rules (rs @ rest) li s =
           (case find (matches s) rs of
              Some r \<Rightarrow> (if str_includes ''$1'' (cleanName r) then rx_replace r s else cleanName r, li)
            | None \<Rightarrow> apply_rules rest li s)"
  using assms by (induction rs) (simp_all add: rx_test_plain)

lemma no_space_no_match:
  assumes "\<forall>c \<in> set t. \<not> is_space c"
  shows "rx_match [Rep 1 is_space] t = []"
  using assms by (cases t) simp_all

lemma rx_first_no_space:
  assumes "\<forall>c \<in> set s. \<not> is_space c"
  shows "rx_first [Rep 1 is_space] s is = None"
proof (induction "is")
  case Nil
  show ?case by simp
next
  case (Cons i "is")
  have "\<forall>c \<in> set (drop i s). \<not> is_space c"
    using assms by (meson in_set_dropD)
  from no_space_no_match [OF this] Cons show ?case
    by simp
qed

lemma regexPatterns_split:
  "regexPatterns = (brand_rules @ butlast generic_rules) @
     [\<lparr>pattern = [Rep 1 is_space], anchored = False, global = True, cleanName = '' ''\<rparr>]"
  by (simp add: regexPatterns_def generic_rules_def)

lemma plain_rules: "\<forall>r \<in> set (brand_rules @ butlast generic_rules). \<not> global r"
  by (simp add: brand_rules_def generic_rules_def brand_def)

text \<open>
  The two results of \<^verbatim>\<open>cleanWithRegex\<close> are the same when one of the rules before the
  white-space rule matches the trimmed name, or the trimmed name has no white space:
  then the pattern with the flag \<^verbatim>\<open>g\<close> and its \<^verbatim>\<open>lastIndex\<close> play no part.
\<close>

lemma regex_value_stable:
  assumes "(\<exists>r \<in> set (brand_rules @ butlast generic_rules). matches (trim name) r) \<or>
           (\<forall>c \<in> set (trim name). \<not> is_space c)"
  shows "fst (cleanWithRegex li name) = fst (cleanWithRegex li' name)"
proof (cases "find (matches (trim name)) (brand_rules @ butlast generic_rules)")
  case (Some r)
  then show ?thesis
    unfolding cleanWithRegex_def regexPatterns_split apply_rules_plain [OF plain_rules]
    by simp
next
  case None
  then have "\<not> (\<exists>r \<in> set (brand_rules @ butlast generic_rules). matches (trim name) r)"
    by (auto simp: find_None_iff)
  with assms have "\<forall>c \<in> set (trim name). \<not> is_space c"
    by blast
  then have "rx_test \<lparr>pattern = [Rep 1 is_space], anchored = False, global = True, cleanName = '' ''\<rparr> k (trim name) = (False, 0)" for k
    using rx_first_no_space [of "trim name"] by (simp add: rx_test_def rx_exec_def del: One_nat_def upt_Suc)
  with None show ?thesis
    unfolding cleanWithRegex_def regexPatterns_split apply_rules_plain [OF plain_rules]
    by simp
qed

lemma gpt_failure_regex_result:
  assumes "gpt_fails response" and "map_of (cleaningCache st) name = None"
    and "(\<exists>r \<in> set (brand_rules @ butlast generic_rules). matches (trim name) r) \<or>
         (\<forall>c \<in> set (trim name). \<not> is_space c)"
  shows "fst (cleanMerchantName st response name) = Inr (fst (cleanWithRegex (lastIndex st) name))"
  using clean_merchant_name_result [of st response name] assms(1,2)
    regex_value_stable [OF assms(3), of "snd (cleanWithRegex (lastIndex st) name)" "lastIndex st"]
  by (auto split: prod.splits)

text \<open>
  Where the white-space rule decides, the second result can differ from the first: for
  \<^verbatim>\<open>Home Depot\<close> the first call of \<^verbatim>\<open>cleanWithRegex\<close> gives the empty string and leaves
  \<^verbatim>\<open>lastIndex\<close> at 5, and the call in the handler, searching from there, leaves the name
  as it is.
\<close>

lemma fallback_evaluated_again:
  "fst (cleanWithRegex (lastIndex example_cleaner) ''Home Depot'') = [] \<and>
   fst (cleanMerchantName example_cleaner None ''Home Depot'') = Inr ''Home Depot''"
  by code_simp

end
